theory Spec2Isabelle
  imports Complex_Main
begin

section \<open>JavaScript numbers\<close>

text \<open>
  The rasters read from a GeoTIFF are typed arrays, so every element is a JavaScript
  number, a binary64 value: finite, an infinity or NaN. A finite value is modelled by
  the rational it denotes. An arithmetic operation on finite values yields the exact
  result rounded to binary64 (\<open>round64\<close> below): to the nearest value, a tie to the
  even significand, and to an infinity on overflow. The two zeros are one value; the
  program cannot tell them apart (\<^verbatim>\<open>-0 !== 0\<close> is false, \<^verbatim>\<open>toFixed\<close> prints both as
  \<^verbatim>\<open>0\<close>, and the only division by a zero is by the counter \<^verbatim>\<open>count\<close>, which is
  \<^verbatim>\<open>+0\<close>).
\<close>

datatype number = Fin rat | PInf | NInf | NaN

text \<open>Unary minus.\<close>

fun negate :: "number \<Rightarrow> number" where
  "negate (Fin a) = Fin (- a)"
| "negate PInf = NInf"
| "negate NInf = PInf"
| "negate NaN = NaN"

subsection \<open>Rounding to binary64\<close>

text \<open>The integer nearest to \<open>q\<close>, the even one of two.\<close>

definition roundHalfEven :: "rat \<Rightarrow> int" where
  "roundHalfEven q =
     (let f = \<lfloor>q\<rfloor>; d = q - of_int f
      in if d < 1 / 2 then f
         else if 1 / 2 < d then f + 1
         else if even f then f else f + 1)"

text \<open>
  The non-negative binary64 values are the numbers \<open>k \<cdot> 2\<^sup>j / 2\<^sup>1\<^sup>0\<^sup>7\<^sup>4\<close> with
  \<open>k < 2\<^sup>5\<^sup>3\<close> and \<open>j \<le> 2045\<close>, and \<open>+\<infinity>\<close>. For \<open>y = a \<cdot> 2\<^sup>1\<^sup>0\<^sup>7\<^sup>4\<close>, \<open>quantum y\<close> is the
  exponent \<open>j\<close> of the spacing of the values around \<open>a\<close>: the least \<open>j\<close> with
  \<open>y < 2\<^sup>j\<^sup>+\<^sup>5\<^sup>3\<close>, and 2045 at most (\<open>j = 0\<close> is the subnormal range and the first
  binade).
\<close>

primrec quantumFrom :: "rat \<Rightarrow> nat \<Rightarrow> nat \<Rightarrow> nat" where
  "quantumFrom y j 0 = j"
| "quantumFrom y j (Suc n) = (if y < 2 ^ (j + 53) then j else quantumFrom y (Suc j) n)"

definition quantum :: "rat \<Rightarrow> nat" where
  "quantum y = quantumFrom y 0 2045"

text \<open>
  \<open>scaled a\<close> is \<open>2\<^sup>1\<^sup>0\<^sup>7\<^sup>4\<close> times the non-negative \<open>a\<close> rounded to that spacing;
  \<open>roundMagnitude\<close> gives the rounded value, which is \<open>+\<infinity>\<close> from \<open>2\<^sup>1\<^sup>0\<^sup>2\<^sup>4\<close> on; \<open>round64\<close>
  rounds the magnitude and keeps the sign.
\<close>

definition scaled :: "rat \<Rightarrow> rat" where
  "scaled a = (let y = a * 2 ^ 1074; j = quantum y in of_int (roundHalfEven (y / 2 ^ j)) * 2 ^ j)"

definition roundMagnitude :: "rat \<Rightarrow> number" where
  "roundMagnitude a = (if 2 ^ 2098 \<le> scaled a then PInf else Fin (scaled a / 2 ^ 1074))"

definition round64 :: "rat \<Rightarrow> number" where
  "round64 x = (if x < 0 then negate (roundMagnitude (- x)) else roundMagnitude x)"

subsection \<open>Operators\<close>

text \<open>
  The operator \<^verbatim>\<open>+\<close> on two numbers: on finite values the exact sum, rounded to
  binary64.
\<close>

fun js_add :: "number \<Rightarrow> number \<Rightarrow> number" where
  "js_add NaN y = NaN"
| "js_add x NaN = NaN"
| "js_add PInf NInf = NaN"
| "js_add NInf PInf = NaN"
| "js_add PInf y = PInf"
| "js_add x PInf = PInf"
| "js_add NInf y = NInf"
| "js_add x NInf = NInf"
| "js_add (Fin a) (Fin b) = round64 (a + b)"

text \<open>The operator \<^verbatim>\<open>-\<close>: the sum with the negated right operand.\<close>

definition js_sub :: "number \<Rightarrow> number \<Rightarrow> number" where
  "js_sub x y = js_add x (negate y)"

text \<open>
  The operator \<^verbatim>\<open>/\<close>. A finite divisor that is zero is \<^verbatim>\<open>+0\<close>: a non-zero
  number over it is the infinity of the dividend's sign, and zero over zero is NaN.
  Over any other finite divisor the result is the exact quotient, rounded to binary64.
\<close>

fun js_div :: "number \<Rightarrow> number \<Rightarrow> number" where
  "js_div NaN y = NaN"
| "js_div x NaN = NaN"
| "js_div (Fin a) (Fin b) =
     (if b = 0 then (if a = 0 then NaN else if 0 < a then PInf else NInf)
      else round64 (a / b))"
| "js_div (Fin a) y = Fin 0"
| "js_div PInf (Fin b) = (if b < 0 then NInf else PInf)"
| "js_div NInf (Fin b) = (if b < 0 then PInf else NInf)"
| "js_div x y = NaN"

text \<open>The operator \<^verbatim>\<open>!==\<close> on two numbers: NaN differs from every number.\<close>

fun strictNotEqual :: "number \<Rightarrow> number \<Rightarrow> bool" where
  "strictNotEqual NaN y = True"
| "strictNotEqual x NaN = True"
| "strictNotEqual x y = (x \<noteq> y)"

text \<open>
  Reading \<^verbatim>\<open>a[i]\<close> from a typed array: the element, or \<^verbatim>\<open>undefined\<close> (here
  \<open>None\<close>) at an index past the end; no error is raised. The arithmetic operators
  convert their operands with ToNumber, which sends \<^verbatim>\<open>undefined\<close> to NaN.
\<close>

definition element :: "number list \<Rightarrow> nat \<Rightarrow> number option" where
  "element a i = (if i < length a then Some (a ! i) else None)"

definition toNumber :: "number option \<Rightarrow> number" where
  "toNumber v = (case v of None \<Rightarrow> NaN | Some x \<Rightarrow> x)"

subsection \<open>Number.prototype.toFixed\<close>

definition digitChar :: "nat \<Rightarrow> char" where
  "digitChar d = ''0123456789'' ! d"

fun digits :: "nat \<Rightarrow> string" where
  "digits n = (if n < 10 then [digitChar n] else digits (n div 10) @ [digitChar (n mod 10)])"

declare digits.simps [simp del]

text \<open>
  Step 11 of the algorithm in ECMA-262, for \<open>0 \<le> x < 10\<^sup>2\<^sup>1\<close>: \<open>n\<close> is the integer
  nearest to \<open>x \<cdot> 10\<^sup>f\<close>, the larger one of two; its decimal digits are padded with
  zeros to \<open>f + 1\<close> places and the point is set before the last \<open>f\<close>.
\<close>

definition toFixedDigits :: "nat \<Rightarrow> rat \<Rightarrow> string" where
  "toFixedDigits f x =
     (let n = nat \<lfloor>x * 10 ^ f + 1 / 2\<rfloor>;
          m = (if n = 0 then ''0'' else digits n)
      in if f \<noteq> 0
         then (let k = length m;
                   m = (if k \<le> f then replicate (f + 1 - k) CHR ''0'' @ m else m);
                   k = (if k \<le> f then f + 1 else k)
               in take (k - f) m @ ''.'' @ drop (k - f) m)
         else m)"

text \<open>
  \<^verbatim>\<open>x.toFixed(f)\<close> for \<open>f \<le> 100\<close> (the program passes 4). From \<open>10\<^sup>2\<^sup>1\<close> on the
  built-in defers to Number::toString, whose shortest digit string depends on the double
  format; that conversion is the parameter \<open>numberToString\<close>.
\<close>

definition toFixed :: "(rat \<Rightarrow> string) \<Rightarrow> nat \<Rightarrow> number \<Rightarrow> string" where
  "toFixed numberToString f x =
     (case x of
        NaN \<Rightarrow> ''NaN''
      | PInf \<Rightarrow> ''Infinity''
      | NInf \<Rightarrow> ''-Infinity''
      | Fin r \<Rightarrow>
          (let s = (if r < 0 then ''-'' else '''');
               a = (if r < 0 then - r else r)
           in if 10 ^ 21 \<le> a then s @ numberToString a else s @ toFixedDigits f a))"

section \<open>The NDVI reduction\<close>

text \<open>
  A decoded GeoTIFF image: its first raster band (\<^verbatim>\<open>(await image.readRasters())[0]\<close>)
  and its declared dimensions.
\<close>

record image =
  raster :: "number list"
  getWidth :: nat
  getHeight :: nat

text \<open>The locals the loop updates: \<^verbatim>\<open>ndvi\<close>, \<^verbatim>\<open>sum\<close> and \<^verbatim>\<open>count\<close>.\<close>

record acc =
  ndvi :: "number list"
  sum_acc :: number
  count :: nat

definition init :: acc where
  "init = \<lparr>ndvi = [], sum_acc = Fin 0, count = 0\<rparr>"

record ndvi_result =
  meanNdvi :: string
  sample :: "number list"
  width :: nat
  height :: nat

definition maxPixels :: nat where
  "maxPixels = 1000000"

subsection \<open>The service module: calculateNdvi\<close>

text \<open>
  One iteration of the loop of \<^verbatim>\<open>calculateNdvi\<close>, at index \<open>i\<close>. The two values
  read are used as operands of \<^verbatim>\<open>+\<close> and \<^verbatim>\<open>-\<close> only, so they are converted to
  numbers where they are bound.
\<close>

definition calculateNdvi_body :: "number list \<Rightarrow> number list \<Rightarrow> nat \<Rightarrow> acc \<Rightarrow> acc" where
  "calculateNdvi_body redRaster nirRaster i st =
     (let red = toNumber (element redRaster i);
          nir = toNumber (element nirRaster i)
      in if strictNotEqual (js_add nir red) (Fin 0)
         then (let val = js_div (js_sub nir red) (js_add nir red)
               in st\<lparr>ndvi := ndvi st @ [val],
                     sum_acc := js_add (sum_acc st) val,
                     count := count st + 1\<rparr>)
         else st\<lparr>ndvi := ndvi st @ [Fin 0]\<rparr>)"

text \<open>
  \<^verbatim>\<open>for (let i = 0; i < Math.min(redRaster.length, maxPixels); i++)\<close>, entered at
  index \<open>i\<close>.
\<close>

function calculateNdvi_loop :: "number list \<Rightarrow> number list \<Rightarrow> nat \<Rightarrow> acc \<Rightarrow> acc" where
  "calculateNdvi_loop redRaster nirRaster i st =
     (if i < min (length redRaster) maxPixels
      then calculateNdvi_loop redRaster nirRaster (i + 1) (calculateNdvi_body redRaster nirRaster i st)
      else st)"
  by pat_completeness auto
termination
  by (relation "measure (\<lambda>(redRaster, nirRaster, i, st). min (length redRaster) maxPixels - i)") auto

declare calculateNdvi_loop.simps [simp del]

text \<open>
  \<^verbatim>\<open>calculateNdvi\<close>. Its argument is the outcome of the awaited download and decoding
  of \<^verbatim>\<open>red.tif\<close> and \<^verbatim>\<open>nir.tif\<close>: \<open>None\<close> when one of them throws, and then the
  function throws too (the result \<open>None\<close>). The counter is at most \<open>maxPixels\<close>, so
  it is a binary64 value as it stands.
\<close>

definition calculateNdvi :: "(rat \<Rightarrow> string) \<Rightarrow> (image \<times> image) option \<Rightarrow> ndvi_result option" where
  "calculateNdvi numberToString loaded =
     (case loaded of
        None \<Rightarrow> None
      | Some (redImage, nirImage) \<Rightarrow>
          (let redRaster = raster redImage;
               nirRaster = raster nirImage;
               st = calculateNdvi_loop redRaster nirRaster 0 init;
               mean = toFixed numberToString 4 (js_div (sum_acc st) (Fin (of_nat (count st))))
           in Some \<lparr>meanNdvi = mean,
                     sample = take 100 (ndvi st),
                     width = getWidth redImage,
                     height = getHeight redImage\<rparr>))"

subsection \<open>The route handler\<close>

datatype body = NdviJson ndvi_result | ErrorJson string

record response =
  status :: nat
  json :: body

definition route_body :: "number list \<Rightarrow> number list \<Rightarrow> nat \<Rightarrow> acc \<Rightarrow> acc" where
  "route_body redRaster nirRaster i st =
     (let red = toNumber (element redRaster i);
          nir = toNumber (element nirRaster i)
      in if strictNotEqual (js_add nir red) (Fin 0)
         then (let val = js_div (js_sub nir red) (js_add nir red)
               in st\<lparr>ndvi := ndvi st @ [val],
                     sum_acc := js_add (sum_acc st) val,
                     count := count st + 1\<rparr>)
         else st\<lparr>ndvi := ndvi st @ [Fin 0]\<rparr>)"

function route_loop :: "number list \<Rightarrow> number list \<Rightarrow> nat \<Rightarrow> acc \<Rightarrow> acc" where
  "route_loop redRaster nirRaster i st =
     (if i < min (length redRaster) maxPixels
      then route_loop redRaster nirRaster (i + 1) (route_body redRaster nirRaster i st)
      else st)"
  by pat_completeness auto
termination
  by (relation "measure (\<lambda>(redRaster, nirRaster, i, st). min (length redRaster) maxPixels - i)") auto

declare route_loop.simps [simp del]

text \<open>
  The handler of \<^verbatim>\<open>router.get("/")\<close>: the response it sends. Without a call of
  \<^verbatim>\<open>res.status\<close> the status is 200; the \<^verbatim>\<open>catch\<close> block answers 500 (the line
  it writes to the console is not part of the response). The loop and its body are
  the handler's own copy, translated from the handler.
\<close>

definition route_handler :: "(rat \<Rightarrow> string) \<Rightarrow> (image \<times> image) option \<Rightarrow> response" where
  "route_handler numberToString loaded =
     (case loaded of
        None \<Rightarrow> \<lparr>status = 500, json = ErrorJson ''NDVI computation failed''\<rparr>
      | Some (redImage, nirImage) \<Rightarrow>
          (let redRaster = raster redImage;
               nirRaster = raster nirImage;
               st = route_loop redRaster nirRaster 0 init;
               mean = toFixed numberToString 4 (js_div (sum_acc st) (Fin (of_nat (count st))))
           in \<lparr>status = 200,
                json = NdviJson \<lparr>meanNdvi = mean,
                                  sample = take 100 (ndvi st),
                                  width = getWidth redImage,
                                  height = getHeight redImage\<rparr>\<rparr>))"

subsection \<open>The sibling in the weather service: calculateNDVIForLocation\<close>

text \<open>
  The loop of \<^verbatim>\<open>calculateNDVIForLocation\<close>, on two plain arrays of numbers. Its body is
  the same; its bound is \<^verbatim>\<open>Math.min(redBand.length, nirBand.length)\<close>, with no cap.
  Only the loop is modelled, not the object the function builds from its outcome.
\<close>

definition calculateNDVIForLocation_body :: "number list \<Rightarrow> number list \<Rightarrow> nat \<Rightarrow> acc \<Rightarrow> acc" where
  "calculateNDVIForLocation_body redBand nirBand i st =
     (let red = toNumber (element redBand i);
          nir = toNumber (element nirBand i)
      in if strictNotEqual (js_add nir red) (Fin 0)
         then (let val = js_div (js_sub nir red) (js_add nir red)
               in st\<lparr>ndvi := ndvi st @ [val],
                     sum_acc := js_add (sum_acc st) val,
                     count := count st + 1\<rparr>)
         else st\<lparr>ndvi := ndvi st @ [Fin 0]\<rparr>)"

function calculateNDVIForLocation_loop :: "number list \<Rightarrow> number list \<Rightarrow> nat \<Rightarrow> acc \<Rightarrow> acc" where
  "calculateNDVIForLocation_loop redBand nirBand i st =
     (if i < min (length redBand) (length nirBand)
      then calculateNDVIForLocation_loop redBand nirBand (i + 1)
             (calculateNDVIForLocation_body redBand nirBand i st)
      else st)"
  by pat_completeness auto
termination
  by (relation "measure (\<lambda>(redBand, nirBand, i, st). min (length redBand) (length nirBand) - i)") auto

declare calculateNDVIForLocation_loop.simps [simp del]

section \<open>What the loop computes\<close>

text \<open>
  The denominator and the quotient of pixel \<open>i\<close>, as the loop body forms them from the
  two reads.
\<close>

definition pixelDenominator :: "number list \<Rightarrow> number list \<Rightarrow> nat \<Rightarrow> number" where
  "pixelDenominator redRaster nirRaster i =
     js_add (toNumber (element nirRaster i)) (toNumber (element redRaster i))"

definition pixelQuotient :: "number list \<Rightarrow> number list \<Rightarrow> nat \<Rightarrow> number" where
  "pixelQuotient redRaster nirRaster i =
     js_div (js_sub (toNumber (element nirRaster i)) (toNumber (element redRaster i)))
            (js_add (toNumber (element nirRaster i)) (toNumber (element redRaster i)))"

text \<open>The number of pixels a run has processed: every iteration pushes one value.\<close>

definition pixelsProcessed :: "acc \<Rightarrow> nat" where
  "pixelsProcessed st = length (ndvi st)"

text \<open>The value the loop pushes for pixel \<open>j\<close>.\<close>

definition pushed :: "number list \<Rightarrow> number list \<Rightarrow> nat \<Rightarrow> number" where
  "pushed redRaster nirRaster j =
     (if pixelDenominator redRaster nirRaster j = Fin 0 then Fin 0
      else pixelQuotient redRaster nirRaster j)"

text \<open>Whether pixel \<open>j\<close> enters the sum and the count.\<close>

definition counted :: "number list \<Rightarrow> number list \<Rightarrow> nat \<Rightarrow> bool" where
  "counted redRaster nirRaster j = (pixelDenominator redRaster nirRaster j \<noteq> Fin 0)"

text \<open>Whether a number lies in the closed interval from \<open>-1\<close> to \<open>1\<close>.\<close>

definition inUnitRange :: "number \<Rightarrow> bool" where
  "inUnitRange v = (case v of Fin x \<Rightarrow> - 1 \<le> x \<and> x \<le> 1 | PInf \<Rightarrow> False | NInf \<Rightarrow> False | NaN \<Rightarrow> False)"

section \<open>Properties of the rounding\<close>

subsection \<open>roundHalfEven\<close>

lemma roundHalfEven_of_int: "roundHalfEven (of_int k) = k"
  by (simp add: roundHalfEven_def)

lemma roundHalfEven_range: "\<lfloor>q\<rfloor> \<le> roundHalfEven q \<and> roundHalfEven q \<le> \<lfloor>q\<rfloor> + 1"
  by (simp add: roundHalfEven_def Let_def)

lemma roundHalfEven_mono:
  assumes "q \<le> q'"
  shows "roundHalfEven q \<le> roundHalfEven q'"
proof (cases "\<lfloor>q\<rfloor> = \<lfloor>q'\<rfloor>")
  case True
  from assms have "q - of_int \<lfloor>q\<rfloor> \<le> q' - of_int \<lfloor>q\<rfloor>" by simp
  then show ?thesis
    unfolding roundHalfEven_def Let_def True [symmetric]
    by (auto split: if_splits)
next
  case False
  with assms have "\<lfloor>q\<rfloor> < \<lfloor>q'\<rfloor>"
    using floor_mono [of q q'] by linarith
  then have "\<lfloor>q\<rfloor> + 1 \<le> \<lfloor>q'\<rfloor>" by simp
  with roundHalfEven_range [of q] roundHalfEven_range [of q'] show ?thesis
    by linarith
qed

lemma roundHalfEven_lower: "of_int m \<le> q \<Longrightarrow> m \<le> roundHalfEven q"
  using roundHalfEven_mono [of "of_int m" q] by (simp add: roundHalfEven_of_int)

lemma roundHalfEven_upper: "q \<le> of_int m \<Longrightarrow> roundHalfEven q \<le> m"
  using roundHalfEven_mono [of q "of_int m"] by (simp add: roundHalfEven_of_int)

subsection \<open>quantum\<close>

lemma quantumFrom_spec:
  "j \<le> quantumFrom y j n \<and> quantumFrom y j n \<le> j + n
   \<and> (quantumFrom y j n = j + n \<or> y < 2 ^ (quantumFrom y j n + 53))
   \<and> (quantumFrom y j n = j \<or> 2 ^ (quantumFrom y j n + 52) \<le> y)"
proof (induction n arbitrary: j)
  case 0
  show ?case by simp
next
  case (Suc n)
  show ?case
  proof (cases "y < 2 ^ (j + 53)")
    case True
    then show ?thesis by simp
  next
    case False
    have step: "quantumFrom y j (Suc n) = quantumFrom y (Suc j) n"
      using False by simp
    have le: "2 ^ (Suc j + 52) \<le> y"
      using False by (simp add: not_less add.commute)
    from Suc.IH [of "Suc j"] le show ?thesis
      unfolding step by auto
  qed
qed

lemma quantum_le: "quantum y \<le> 2045"
  using quantumFrom_spec [of 0 y 2045] by (simp add: quantum_def)

lemma quantum_upper: "quantum y \<noteq> 2045 \<Longrightarrow> y < 2 ^ (quantum y + 53)"
  using quantumFrom_spec [of 0 y 2045] by (simp add: quantum_def)

lemma quantum_lower: "quantum y \<noteq> 0 \<Longrightarrow> 2 ^ (quantum y + 52) \<le> y"
  using quantumFrom_spec [of 0 y 2045] by (simp add: quantum_def)

lemma quantum_mono:
  assumes "y \<le> y'"
  shows "quantum y \<le> quantum y'"
proof (rule ccontr)
  assume "\<not> quantum y \<le> quantum y'"
  then have less: "quantum y' < quantum y" by simp
  then have "quantum y \<noteq> 0" by simp
  then have low: "2 ^ (quantum y + 52) \<le> y" by (rule quantum_lower)
  from less quantum_le [of y] have "quantum y' \<noteq> 2045" by simp
  then have up: "y' < 2 ^ (quantum y' + 53)" by (rule quantum_upper)
  from less have "quantum y' + 53 \<le> quantum y + 52" by simp
  then have "(2::rat) ^ (quantum y' + 53) \<le> 2 ^ (quantum y + 52)"
    by (rule power_increasing) simp
  with low up assms show False by linarith
qed

subsection \<open>scaled\<close>

lemma scaled_nonneg:
  assumes "0 \<le> a"
  shows "0 \<le> scaled a"
proof -
  have "(0::rat) \<le> a * 2 ^ 1074 / 2 ^ quantum (a * 2 ^ 1074)"
    using assms by (intro divide_nonneg_pos mult_nonneg_nonneg) simp_all
  then have "0 \<le> roundHalfEven (a * 2 ^ 1074 / 2 ^ quantum (a * 2 ^ 1074))"
    using roundHalfEven_lower [of 0] by simp
  then show ?thesis
    unfolding scaled_def Let_def by (intro mult_nonneg_nonneg) simp_all
qed

lemma scaled_mono:
  assumes "0 \<le> a" and "a \<le> b"
  shows "scaled a \<le> scaled b"
proof -
  define y where "y = a * 2 ^ 1074"
  define y' where "y' = b * 2 ^ 1074"
  define j where "j = quantum y"
  define j' where "j' = quantum y'"
  define k where "k = roundHalfEven (y / 2 ^ j)"
  define k' where "k' = roundHalfEven (y' / 2 ^ j')"
  have sa: "scaled a = of_int k * 2 ^ j"
    by (simp add: scaled_def Let_def y_def j_def k_def)
  have sb: "scaled b = of_int k' * 2 ^ j'"
    by (simp add: scaled_def Let_def y'_def j'_def k'_def)
  have yy: "y \<le> y'"
    unfolding y_def y'_def using assms(2) by (intro mult_right_mono) simp_all
  have jj: "j \<le> j'"
    unfolding j_def j'_def using yy by (rule quantum_mono)
  show ?thesis
  proof (cases "j = j'")
    case True
    have "y / 2 ^ j \<le> y' / 2 ^ j"
      using yy by (intro divide_right_mono) simp_all
    then have "k \<le> k'"
      unfolding k_def k'_def True [symmetric] by (rule roundHalfEven_mono)
    then have "(of_int k :: rat) * 2 ^ j \<le> of_int k' * 2 ^ j"
      by (intro mult_right_mono) simp_all
    then show ?thesis
      unfolding sa sb True [symmetric] .
  next
    case False
    with jj have less: "j < j'" by simp
    with quantum_le [of y'] have "j \<noteq> 2045" unfolding j'_def by simp
    then have "y < 2 ^ (j + 53)"
      unfolding j_def by (rule quantum_upper)
    then have "y / 2 ^ j < 2 ^ 53"
      by (simp add: power_add pos_divide_less_eq mult.commute)
    then have "y / 2 ^ j \<le> of_int (2 ^ 53)" by simp
    then have "k \<le> 2 ^ 53"
      unfolding k_def by (rule roundHalfEven_upper)
    then have "(of_int k :: rat) \<le> 2 ^ 53"
      by (metis of_int_le_iff of_int_numeral of_int_power)
    then have "of_int k * (2::rat) ^ j \<le> 2 ^ 53 * 2 ^ j"
      by (intro mult_right_mono) simp_all
    then have upper: "scaled a \<le> 2 ^ (j + 53)"
      unfolding sa by (simp add: power_add mult.commute)
    from less have "j' \<noteq> 0" by simp
    then have "2 ^ (j' + 52) \<le> y'"
      unfolding j'_def by (rule quantum_lower)
    then have "2 ^ 52 \<le> y' / 2 ^ j'"
      by (simp add: power_add pos_le_divide_eq mult.commute)
    then have "of_int (2 ^ 52) \<le> y' / 2 ^ j'" by simp
    then have "2 ^ 52 \<le> k'"
      unfolding k'_def by (rule roundHalfEven_lower)
    then have "(2::rat) ^ 52 \<le> of_int k'"
      by (metis of_int_le_iff of_int_numeral of_int_power)
    then have "(2::rat) ^ 52 * 2 ^ j' \<le> of_int k' * 2 ^ j'"
      by (intro mult_right_mono) simp_all
    then have lower: "2 ^ (j' + 52) \<le> scaled b"
      unfolding sb by (simp add: power_add mult.commute)
    from less have "j + 53 \<le> j' + 52" by simp
    then have "(2::rat) ^ (j + 53) \<le> 2 ^ (j' + 52)"
      by (rule power_increasing) simp
    with upper lower show ?thesis by linarith
  qed
qed

lemma scaled_dyadic:
  assumes "0 \<le> m" and "m < 2 ^ 53" and "i \<le> 1074"
  shows "scaled (of_int m / 2 ^ i) = of_int m * 2 ^ (1074 - i)"
proof -
  define y :: rat where "y = of_int m * 2 ^ (1074 - i)"
  have split: "(2::rat) ^ 1074 = 2 ^ i * 2 ^ (1074 - i)"
    using assms(3) by (simp add: power_add [symmetric])
  have y: "of_int m / 2 ^ i * 2 ^ 1074 = y"
    unfolding y_def split by simp
  define j where "j = quantum y"
  have "j \<le> 1074 - i"
  proof (cases "j = 0")
    case True
    then show ?thesis by simp
  next
    case False
    then have low: "2 ^ (j + 52) \<le> y"
      unfolding j_def by (rule quantum_lower)
    from assms(2) have "(of_int m :: rat) < 2 ^ 53"
      by (metis of_int_less_iff of_int_numeral of_int_power)
    then have "y < 2 ^ 53 * 2 ^ (1074 - i)"
      unfolding y_def by (intro mult_strict_right_mono) simp_all
    with low have "(2::rat) ^ (j + 52) < 2 ^ (53 + (1074 - i))"
      by (simp add: power_add)
    then have "j + 52 < 53 + (1074 - i)"
      by (rule power_less_imp_less_exp [rotated]) simp
    then show ?thesis by simp
  qed
  then have e: "j + (1074 - i - j) = 1074 - i"
    by simp
  have p: "(2::rat) ^ (1074 - i) = 2 ^ j * 2 ^ (1074 - i - j)"
    unfolding power_add [symmetric] e ..
  then have "y / 2 ^ j = of_int (m * 2 ^ (1074 - i - j))"
    unfolding y_def by simp
  then have "roundHalfEven (y / 2 ^ j) = m * 2 ^ (1074 - i - j)"
    by (simp only: roundHalfEven_of_int)
  then have "of_int (roundHalfEven (y / 2 ^ j)) * 2 ^ j = of_int m * ((2::rat) ^ j * 2 ^ (1074 - i - j))"
    by simp
  also have "\<dots> = y"
    unfolding y_def p [symmetric] ..
  finally have fin: "of_int (roundHalfEven (y / 2 ^ j)) * 2 ^ j = y" .
  show ?thesis
    unfolding scaled_def Let_def y using fin unfolding j_def y_def .
qed


subsection \<open>round64\<close>

lemma negate_negate: "negate (negate x) = x"
  by (cases x) simp_all

lemma roundMagnitude_zero: "roundMagnitude 0 = Fin 0"
  using scaled_dyadic [of 0 0] by (simp add: roundMagnitude_def)

lemma round64_minus: "round64 (- x) = negate (round64 x)"
proof -
  consider "x < 0" | "x = 0" | "0 < x" by linarith
  then show ?thesis
  proof cases
    case 1
    then show ?thesis by (simp add: round64_def negate_negate)
  next
    case 2
    then show ?thesis by (simp add: round64_def roundMagnitude_zero)
  next
    case 3
    then show ?thesis by (simp add: round64_def)
  qed
qed

lemma roundMagnitude_dyadic:
  assumes "0 \<le> m" and "m < 2 ^ 53" and "i \<le> 1074"
  shows "roundMagnitude (of_int m / 2 ^ i) = Fin (of_int m / 2 ^ i)"
proof -
  have split: "(2::rat) ^ 1074 = 2 ^ i * 2 ^ (1074 - i)"
    using assms(3) by (simp add: power_add [symmetric])
  have s: "scaled (of_int m / 2 ^ i) = of_int m * 2 ^ (1074 - i)"
    using assms by (rule scaled_dyadic)
  from assms(2) have "(of_int m :: rat) < 2 ^ 53"
    by (metis of_int_less_iff of_int_numeral of_int_power)
  then have "(of_int m :: rat) * 2 ^ (1074 - i) < 2 ^ 53 * 2 ^ (1074 - i)"
    by (intro mult_strict_right_mono) simp_all
  also have "\<dots> = 2 ^ (53 + (1074 - i))"
    by (simp add: power_add)
  also have "\<dots> \<le> 2 ^ 2098"
    by (rule power_increasing) simp_all
  finally have small: "\<not> 2 ^ 2098 \<le> scaled (of_int m / 2 ^ i)"
    unfolding s by simp
  have "scaled (of_int m / 2 ^ i) / 2 ^ 1074 = of_int m / 2 ^ i"
    unfolding s split by simp
  with small show ?thesis
    by (simp only: roundMagnitude_def if_False)
qed

lemma round64_dyadic:
  assumes "\<bar>m\<bar> < 2 ^ 53" and "i \<le> 1074"
  shows "round64 (of_int m / 2 ^ i) = Fin (of_int m / 2 ^ i)"
proof (cases "0 \<le> m")
  case True
  then have "\<not> (of_int m / 2 ^ i :: rat) < 0"
    by (simp add: not_less)
  moreover have "roundMagnitude (of_int m / 2 ^ i) = Fin (of_int m / 2 ^ i)"
    using True assms by (intro roundMagnitude_dyadic) simp_all
  ultimately show ?thesis
    by (simp only: round64_def if_False)
next
  case False
  then have neg: "(of_int m / 2 ^ i :: rat) < 0"
    by (simp add: divide_neg_pos)
  have "roundMagnitude (of_int (- m) / 2 ^ i) = Fin (of_int (- m) / 2 ^ i)"
    using False assms by (intro roundMagnitude_dyadic) simp_all
  then have "roundMagnitude (- (of_int m / 2 ^ i)) = Fin (- (of_int m / 2 ^ i))"
    by simp
  with neg show ?thesis
    by (simp only: round64_def if_True negate.simps minus_minus)
qed

lemma round64_of_int: "\<bar>m\<bar> < 2 ^ 53 \<Longrightarrow> round64 (of_int m) = Fin (of_int m)"
  using round64_dyadic [of m 0] by simp

lemma round64_0: "round64 0 = Fin 0"
  using round64_of_int [of 0] by simp

lemma round64_1: "round64 1 = Fin 1"
  using round64_of_int [of 1] by simp

lemma round64_numeral:
  "(numeral k :: int) < 9007199254740992 \<Longrightarrow> round64 (numeral k) = Fin (numeral k)"
  using round64_of_int [of "numeral k"] by simp

lemma round64_neg_numeral:
  "(numeral k :: int) < 9007199254740992 \<Longrightarrow> round64 (- numeral k) = Fin (- numeral k)"
  using round64_of_int [of "- numeral k"] by simp

lemma round64_half: "round64 (1 / 2) = Fin (1 / 2)"
  using round64_dyadic [of 1 1] by simp

lemma round64_neg_half: "round64 (- (1 / 2)) = Fin (- (1 / 2))"
  using round64_dyadic [of "- 1" 1] by simp

lemma round64_numeral_half:
  "(numeral k :: int) < 9007199254740992 \<Longrightarrow> round64 (numeral k / 2) = Fin (numeral k / 2)"
  using round64_dyadic [of "numeral k" 1] by simp

lemma round64_neg_numeral_half:
  "(numeral k :: int) < 9007199254740992 \<Longrightarrow> round64 (- (numeral k / 2)) = Fin (- (numeral k / 2))"
  using round64_dyadic [of "- numeral k" 1] by simp

text \<open>
  Rounding keeps a value within a bound that is itself a binary64 value, and keeps
  the order of magnitudes.
\<close>

lemma round64_bounded:
  assumes "\<bar>x\<bar> \<le> c" and "round64 c = Fin c"
  shows "\<exists>v. round64 x = Fin v \<and> \<bar>v\<bar> \<le> c"
proof -
  from assms(1) have c0: "0 \<le> c" by linarith
  then have rc: "roundMagnitude c = Fin c"
    using assms(2) by (simp add: round64_def)
  then have small: "\<not> 2 ^ 2098 \<le> scaled c" and val: "scaled c / 2 ^ 1074 = c"
    by (simp_all add: roundMagnitude_def split: if_splits)
  have mag: "\<exists>v. roundMagnitude a = Fin v \<and> 0 \<le> v \<and> v \<le> c" if "0 \<le> a" and "a \<le> c" for a
  proof -
    have le: "scaled a \<le> scaled c"
      using that by (rule scaled_mono)
    with small have "\<not> 2 ^ 2098 \<le> scaled a" by linarith
    then have r: "roundMagnitude a = Fin (scaled a / 2 ^ 1074)"
      by (simp only: roundMagnitude_def if_False)
    have "0 \<le> scaled a / 2 ^ 1074"
      using scaled_nonneg [OF that(1)] by (intro divide_nonneg_pos) simp_all
    moreover have "scaled a / 2 ^ 1074 \<le> scaled c / 2 ^ 1074"
      using le by (intro divide_right_mono) simp_all
    ultimately show ?thesis
      unfolding r val by blast
  qed
  show ?thesis
  proof (cases "x < 0")
    case True
    with assms(1) have "0 \<le> - x" and "- x \<le> c" by linarith+
    from mag [OF this] obtain v where "roundMagnitude (- x) = Fin v" and "0 \<le> v" and "v \<le> c"
      by blast
    with True have "round64 x = Fin (- v) \<and> \<bar>- v\<bar> \<le> c"
      by (simp add: round64_def)
    then show ?thesis by blast
  next
    case False
    with assms(1) have "0 \<le> x" and "x \<le> c" by linarith+
    from mag [OF this] obtain v where "roundMagnitude x = Fin v" and "0 \<le> v" and "v \<le> c"
      by blast
    with False have "round64 x = Fin v \<and> \<bar>v\<bar> \<le> c"
      by (simp add: round64_def)
    then show ?thesis by blast
  qed
qed

lemma round64_above:
  assumes "0 \<le> c" and "c \<le> b" and "round64 c = Fin c"
  shows "round64 b = PInf \<or> (\<exists>d. round64 b = Fin d \<and> c \<le> d)"
proof -
  have rc: "roundMagnitude c = Fin c"
    using assms(1,3) by (simp add: round64_def)
  then have val: "scaled c / 2 ^ 1074 = c"
    by (simp add: roundMagnitude_def split: if_splits)
  have le: "scaled c \<le> scaled b"
    using assms(1,2) by (rule scaled_mono)
  from assms have b: "round64 b = roundMagnitude b"
    by (simp add: round64_def)
  show ?thesis
  proof (cases "2 ^ 2098 \<le> scaled b")
    case True
    then show ?thesis by (simp add: b roundMagnitude_def)
  next
    case False
    then have r: "roundMagnitude b = Fin (scaled b / 2 ^ 1074)"
      by (simp only: roundMagnitude_def if_False)
    have "scaled c / 2 ^ 1074 \<le> scaled b / 2 ^ 1074"
      using le by (intro divide_right_mono) simp_all
    then show ?thesis
      unfolding b r val by blast
  qed
qed

lemma round64_abs_le:
  assumes "\<bar>a\<bar> \<le> b" and "round64 a = Fin s" and "round64 b = Fin d"
  shows "\<bar>s\<bar> \<le> d"
proof -
  from assms(1) have b0: "0 \<le> b" by linarith
  have le: "scaled \<bar>a\<bar> \<le> scaled b"
    using assms(1) by (intro scaled_mono) simp_all
  from b0 assms(3) have "roundMagnitude b = Fin d"
    by (simp add: round64_def)
  then have d: "d = scaled b / 2 ^ 1074"
    by (simp add: roundMagnitude_def split: if_splits)
  have "roundMagnitude \<bar>a\<bar> = Fin \<bar>s\<bar>"
  proof (cases "a < 0")
    case True
    with assms(2) have "negate (roundMagnitude (- a)) = Fin s"
      by (simp add: round64_def)
    then have "roundMagnitude (- a) = Fin (- s)"
      by (cases "roundMagnitude (- a)") simp_all
    moreover have "0 \<le> - s"
      using calculation scaled_nonneg [of "- a"] True
      by (simp add: roundMagnitude_def split: if_splits)
    ultimately show ?thesis
      using True by (simp add: abs_if)
  next
    case False
    with assms(2) have r: "roundMagnitude a = Fin s"
      by (simp add: round64_def)
    moreover have "0 \<le> s"
      using r scaled_nonneg [of a] False
      by (auto simp add: roundMagnitude_def split: if_splits)
    ultimately show ?thesis
      using False by (simp add: abs_if)
  qed
  then have "\<bar>s\<bar> = scaled \<bar>a\<bar> / 2 ^ 1074"
    by (simp add: roundMagnitude_def split: if_splits)
  also have "\<dots> \<le> scaled b / 2 ^ 1074"
    using le by (intro divide_right_mono) simp_all
  finally show ?thesis
    unfolding d .
qed

text \<open>The rounding of a value in a given binade.\<close>

lemma quantum_eq:
  assumes "2 ^ (j + 52) \<le> y" and "y < 2 ^ (j + 53)" and "j \<le> 2045"
  shows "quantum y = j"
proof (rule ccontr)
  assume "quantum y \<noteq> j"
  then consider "quantum y < j" | "j < quantum y" by linarith
  then show False
  proof cases
    case 1
    with assms(3) have "quantum y \<noteq> 2045" by simp
    then have up: "y < 2 ^ (quantum y + 53)" by (rule quantum_upper)
    from 1 have "quantum y + 53 \<le> j + 52" by simp
    then have "(2::rat) ^ (quantum y + 53) \<le> 2 ^ (j + 52)"
      by (rule power_increasing) simp
    with up assms(1) show False by linarith
  next
    case 2
    then have "quantum y \<noteq> 0" by simp
    then have low: "2 ^ (quantum y + 52) \<le> y" by (rule quantum_lower)
    from 2 have "j + 53 \<le> quantum y + 52" by simp
    then have "(2::rat) ^ (j + 53) \<le> 2 ^ (quantum y + 52)"
      by (rule power_increasing) simp
    with low assms(2) show False by linarith
  qed
qed

lemma round64_normal:
  assumes "2 ^ (j + 52) \<le> x * 2 ^ 1074" and "x * 2 ^ 1074 < 2 ^ (j + 53)" and "j \<le> 2044"
    and "j \<le> 1074" and "0 \<le> x"
  shows "round64 x = Fin (of_int (roundHalfEven (x * 2 ^ (1074 - j))) / 2 ^ (1074 - j))"
proof -
  have q: "quantum (x * 2 ^ 1074) = j"
    using assms(1,2) by (rule quantum_eq) (use assms(3) in simp)
  have split: "(2::rat) ^ 1074 = 2 ^ j * 2 ^ (1074 - j)"
    using assms(4) by (simp add: power_add [symmetric])
  have arg: "x * 2 ^ 1074 / 2 ^ j = x * 2 ^ (1074 - j)"
    unfolding split by simp
  define k where "k = roundHalfEven (x * 2 ^ (1074 - j))"
  have s: "scaled x = of_int k * 2 ^ j"
    unfolding scaled_def Let_def q arg k_def ..
  have "x * 2 ^ (1074 - j) < 2 ^ 53"
    using assms(2) unfolding split by (simp add: power_add)
  then have "x * 2 ^ (1074 - j) \<le> of_int (2 ^ 53)" by simp
  then have "k \<le> 2 ^ 53" unfolding k_def by (rule roundHalfEven_upper)
  then have "(of_int k :: rat) \<le> 2 ^ 53"
    by (metis of_int_le_iff of_int_numeral of_int_power)
  then have "of_int k * (2::rat) ^ j \<le> 2 ^ 53 * 2 ^ j"
    by (intro mult_right_mono) simp_all
  also have "\<dots> = 2 ^ (53 + j)" by (simp add: power_add)
  also have "\<dots> < 2 ^ 2098"
    using assms(3) by (intro power_strict_increasing) simp_all
  finally have small: "\<not> 2 ^ 2098 \<le> scaled x"
    unfolding s by simp
  have "scaled x / 2 ^ 1074 = of_int k / 2 ^ (1074 - j)"
    unfolding s split by simp
  with small assms(5) show ?thesis
    unfolding k_def [symmetric] by (simp add: round64_def roundMagnitude_def)
qed

section \<open>The loop in closed form\<close>

lemma strictNotEqual_zero: "strictNotEqual x (Fin 0) = (x \<noteq> Fin 0)"
  by (cases x) simp_all

lemma calculateNdvi_body_eq:
  "calculateNdvi_body redRaster nirRaster i st =
     (if pixelDenominator redRaster nirRaster i = Fin 0
      then st\<lparr>ndvi := ndvi st @ [Fin 0]\<rparr>
      else st\<lparr>ndvi := ndvi st @ [pixelQuotient redRaster nirRaster i],
              sum_acc := js_add (sum_acc st) (pixelQuotient redRaster nirRaster i),
              count := count st + 1\<rparr>)"
  by (simp add: calculateNdvi_body_def pixelDenominator_def pixelQuotient_def strictNotEqual_zero Let_def)

lemma route_body_eq: "route_body redRaster nirRaster i st = calculateNdvi_body redRaster nirRaster i st"
  by (simp add: route_body_def calculateNdvi_body_def)

lemma calculateNdvi_loop_step:
  "i < min (length redRaster) maxPixels \<Longrightarrow>
   calculateNdvi_loop redRaster nirRaster i st =
     calculateNdvi_loop redRaster nirRaster (i + 1) (calculateNdvi_body redRaster nirRaster i st)"
  by (subst calculateNdvi_loop.simps) (simp only: if_True)

lemma calculateNdvi_loop_exit:
  "\<not> i < min (length redRaster) maxPixels \<Longrightarrow> calculateNdvi_loop redRaster nirRaster i st = st"
  by (subst calculateNdvi_loop.simps) (simp only: if_False)

lemma route_loop_step:
  "i < min (length redRaster) maxPixels \<Longrightarrow>
   route_loop redRaster nirRaster i st =
     route_loop redRaster nirRaster (i + 1) (route_body redRaster nirRaster i st)"
  by (subst route_loop.simps) (simp only: if_True)

lemma route_loop_exit:
  "\<not> i < min (length redRaster) maxPixels \<Longrightarrow> route_loop redRaster nirRaster i st = st"
  by (subst route_loop.simps) (simp only: if_False)

lemma route_loop_eq: "route_loop redRaster nirRaster i st = calculateNdvi_loop redRaster nirRaster i st"
proof (induction redRaster nirRaster i st rule: calculateNdvi_loop.induct)
  case (1 redRaster nirRaster i st)
  show ?case
  proof (cases "i < min (length redRaster) maxPixels")
    case True
    have "route_loop redRaster nirRaster i st =
            route_loop redRaster nirRaster (i + 1) (calculateNdvi_body redRaster nirRaster i st)"
      by (simp only: route_loop_step [OF True] route_body_eq)
    also have "\<dots> = calculateNdvi_loop redRaster nirRaster (i + 1) (calculateNdvi_body redRaster nirRaster i st)"
      by (rule "1" [OF True])
    finally show ?thesis
      by (simp only: calculateNdvi_loop_step [OF True])
  next
    case False
    show ?thesis
      by (simp only: route_loop_exit [OF False] calculateNdvi_loop_exit [OF False])
  qed
qed

lemma body_ndvi:
  "ndvi (calculateNdvi_body redRaster nirRaster i st) = ndvi st @ [pushed redRaster nirRaster i]"
  by (simp add: calculateNdvi_body_eq pushed_def)

lemma body_sum:
  "sum_acc (calculateNdvi_body redRaster nirRaster i st) =
     (if counted redRaster nirRaster i then js_add (sum_acc st) (pixelQuotient redRaster nirRaster i)
      else sum_acc st)"
  by (simp add: calculateNdvi_body_eq counted_def)

lemma body_count:
  "count (calculateNdvi_body redRaster nirRaster i st) =
     (if counted redRaster nirRaster i then count st + 1 else count st)"
  by (simp add: calculateNdvi_body_eq counted_def)

lemma loop_ndvi:
  "ndvi (calculateNdvi_loop redRaster nirRaster i st) =
     ndvi st @ map (pushed redRaster nirRaster) [i..<min (length redRaster) maxPixels]"
proof (induction redRaster nirRaster i st rule: calculateNdvi_loop.induct)
  case (1 redRaster nirRaster i st)
  show ?case
  proof (cases "i < min (length redRaster) maxPixels")
    case True
    have "ndvi (calculateNdvi_loop redRaster nirRaster i st) =
            ndvi (calculateNdvi_body redRaster nirRaster i st) @
            map (pushed redRaster nirRaster) [i + 1..<min (length redRaster) maxPixels]"
      by (simp only: calculateNdvi_loop_step [OF True] "1" [OF True])
    also have "\<dots> = ndvi st @ map (pushed redRaster nirRaster) (i # [i + 1..<min (length redRaster) maxPixels])"
      by (simp add: body_ndvi)
    finally show ?thesis
      using upt_conv_Cons [OF True] by simp
  next
    case False
    have empty: "[i..<min (length redRaster) maxPixels] = []"
      by (subst upt_rec) (simp only: False if_False)
    show ?thesis
      unfolding empty calculateNdvi_loop_exit [OF False] by simp
  qed
qed

lemma loop_sum:
  "sum_acc (calculateNdvi_loop redRaster nirRaster i st) =
     foldl js_add (sum_acc st)
       (map (pixelQuotient redRaster nirRaster)
         (filter (counted redRaster nirRaster) [i..<min (length redRaster) maxPixels]))"
proof (induction redRaster nirRaster i st rule: calculateNdvi_loop.induct)
  case (1 redRaster nirRaster i st)
  show ?case
  proof (cases "i < min (length redRaster) maxPixels")
    case True
    have "sum_acc (calculateNdvi_loop redRaster nirRaster i st) =
            foldl js_add (sum_acc (calculateNdvi_body redRaster nirRaster i st))
              (map (pixelQuotient redRaster nirRaster)
                (filter (counted redRaster nirRaster) [i + 1..<min (length redRaster) maxPixels]))"
      by (simp only: calculateNdvi_loop_step [OF True] "1" [OF True])
    also have "\<dots> = foldl js_add (sum_acc st)
              (map (pixelQuotient redRaster nirRaster)
                (filter (counted redRaster nirRaster) (i # [i + 1..<min (length redRaster) maxPixels])))"
      by (simp add: body_sum)
    finally show ?thesis
      using upt_conv_Cons [OF True] by simp
  next
    case False
    have empty: "[i..<min (length redRaster) maxPixels] = []"
      by (subst upt_rec) (simp only: False if_False)
    show ?thesis
      unfolding empty calculateNdvi_loop_exit [OF False] by simp
  qed
qed

lemma loop_count:
  "count (calculateNdvi_loop redRaster nirRaster i st) =
     count st + length (filter (counted redRaster nirRaster) [i..<min (length redRaster) maxPixels])"
proof (induction redRaster nirRaster i st rule: calculateNdvi_loop.induct)
  case (1 redRaster nirRaster i st)
  show ?case
  proof (cases "i < min (length redRaster) maxPixels")
    case True
    have "count (calculateNdvi_loop redRaster nirRaster i st) =
            count (calculateNdvi_body redRaster nirRaster i st) +
            length (filter (counted redRaster nirRaster) [i + 1..<min (length redRaster) maxPixels])"
      by (simp only: calculateNdvi_loop_step [OF True] "1" [OF True])
    also have "\<dots> = count st +
            length (filter (counted redRaster nirRaster) (i # [i + 1..<min (length redRaster) maxPixels]))"
      by (simp add: body_count)
    finally show ?thesis
      using upt_conv_Cons [OF True] by simp
  next
    case False
    have empty: "[i..<min (length redRaster) maxPixels] = []"
      by (subst upt_rec) (simp only: False if_False)
    show ?thesis
      unfolding empty calculateNdvi_loop_exit [OF False] by simp
  qed
qed

lemma loop_pixelsProcessed:
  "pixelsProcessed (calculateNdvi_loop redRaster nirRaster 0 init) = min (length redRaster) maxPixels"
  by (simp add: pixelsProcessed_def loop_ndvi init_def)

lemma route_pixelsProcessed:
  "pixelsProcessed (route_loop redRaster nirRaster 0 init) = min (length redRaster) maxPixels"
  by (simp only: route_loop_eq loop_pixelsProcessed)

lemma take_upt_min: "take k [0..<n] = [0..<min k n]"
  by (cases "k \<le> n") (simp_all add: min_def)

lemma loop_closed_form:
  "calculateNdvi_loop redRaster nirRaster 0 init =
     \<lparr>ndvi = map (pushed redRaster nirRaster) [0..<min (length redRaster) maxPixels],
      sum_acc = foldl js_add (Fin 0)
         (map (pixelQuotient redRaster nirRaster)
           (filter (counted redRaster nirRaster) [0..<min (length redRaster) maxPixels])),
      count = length (filter (counted redRaster nirRaster) [0..<min (length redRaster) maxPixels])\<rparr>"
  by (rule acc.equality) (simp_all add: loop_ndvi loop_sum loop_count init_def)

section \<open>Evaluation on concrete rasters\<close>

lemma floor_numeral_div_rat: "\<lfloor>numeral a / numeral b :: rat\<rfloor> = numeral a div numeral b"
  by (metis floor_divide_of_int_eq of_int_numeral)

lemma floor_one_div_rat: "\<lfloor>1 / numeral b :: rat\<rfloor> = 1 div numeral b"
  by (metis floor_divide_of_int_eq of_int_numeral of_int_1)

lemma replicate_num: "replicate (numeral k) x = x # replicate (pred_numeral k) x"
  by (simp add: numeral_eq_Suc)

lemma digits_small: "n < 10 \<Longrightarrow> digits n = [digitChar n]"
  by (simp add: digits.simps)

lemma digits_large: "10 \<le> n \<Longrightarrow> digits n = digits (n div 10) @ [digitChar (n mod 10)]"
  by (subst digits.simps) simp

lemma calculateNDVIForLocation_loop_step:
  "i < min (length redBand) (length nirBand) \<Longrightarrow>
   calculateNDVIForLocation_loop redBand nirBand i st =
     calculateNDVIForLocation_loop redBand nirBand (i + 1)
       (calculateNDVIForLocation_body redBand nirBand i st)"
  by (subst calculateNDVIForLocation_loop.simps) (simp only: if_True)

lemma calculateNDVIForLocation_loop_exit:
  "\<not> i < min (length redBand) (length nirBand) \<Longrightarrow>
   calculateNDVIForLocation_loop redBand nirBand i st = st"
  by (subst calculateNDVIForLocation_loop.simps) (simp only: if_False)

lemmas toFixed_eval = toFixed_def toFixedDigits_def digits_small digits_large digitChar_def Let_def
  floor_numeral_div_rat floor_one_div_rat replicate_num

lemmas round64_eval = round64_0 round64_1 round64_numeral round64_neg_numeral round64_half
  round64_neg_half round64_numeral_half round64_neg_numeral_half

lemmas loop_eval = calculateNdvi_loop_step calculateNdvi_loop_exit maxPixels_def
  calculateNdvi_body_def element_def toNumber_def init_def js_sub_def Let_def round64_eval

lemma round64_157_160: "round64 (157 / 160) = Fin (4419157134357299 / 4503599627370496)"
proof -
  have "round64 (157 / 160) = Fin (of_int (roundHalfEven (157 / 160 * 2 ^ (1074 - 1021))) / 2 ^ (1074 - 1021))"
    by (rule round64_normal) simp_all
  also have "roundHalfEven (157 / 160 * 2 ^ (1074 - 1021)) = 8838314268714598"
    by (simp add: roundHalfEven_def Let_def floor_numeral_div_rat)
  finally show ?thesis by simp
qed

lemma toFixed_NaN: "toFixed numberToString f NaN = ''NaN''"
  by (simp add: toFixed_def)

lemma toFixed_half: "toFixed numberToString 4 (Fin (1 / 2)) = ''0.5000''"
  by (simp add: toFixed_eval)

lemma toFixed_zero: "toFixed numberToString 4 (Fin 0) = ''0.0000''"
  by (simp add: toFixed_eval)

lemma loop_100_300:
  "calculateNdvi_loop [Fin 100] [Fin 300] 0 init =
     \<lparr>ndvi = [Fin (1 / 2)], sum_acc = Fin (1 / 2), count = 1\<rparr>"
  by (simp add: loop_eval)

lemma loop_zero_zero:
  "calculateNdvi_loop [Fin 0, Fin 0] [Fin 0, Fin 0] 0 init =
     \<lparr>ndvi = [Fin 0, Fin 0], sum_acc = Fin 0, count = 0\<rparr>"
  by (simp add: loop_eval)

lemma loop_empty:
  "calculateNdvi_loop [] nirRaster 0 init = \<lparr>ndvi = [], sum_acc = Fin 0, count = 0\<rparr>"
  by (simp add: loop_eval)

lemma loop_0_10:
  "calculateNdvi_loop [Fin 0, Fin 10] [Fin 0, Fin 10] 0 init =
     \<lparr>ndvi = [Fin 0, Fin 0], sum_acc = Fin 0, count = 1\<rparr>"
  by (simp add: loop_eval)

lemma loop_0_100_300:
  "calculateNdvi_loop [Fin 0, Fin 100] [Fin 0, Fin 300] 0 init =
     \<lparr>ndvi = [Fin 0, Fin (1 / 2)], sum_acc = Fin (1 / 2), count = 1\<rparr>"
  by (simp add: loop_eval)

lemma loop_5_3:
  "calculateNdvi_loop [Fin 1, Fin 2, Fin 3, Fin 4, Fin 5] [Fin 3, Fin 6, Fin 9] 0 init =
     \<lparr>ndvi = [Fin (1 / 2), Fin (1 / 2), Fin (1 / 2), NaN, NaN], sum_acc = NaN, count = 5\<rparr>"
  by (simp add: loop_eval)

lemma location_loop_5_3:
  "calculateNDVIForLocation_loop [Fin 1, Fin 2, Fin 3, Fin 4, Fin 5] [Fin 3, Fin 6, Fin 9] 0 init =
     \<lparr>ndvi = [Fin (1 / 2), Fin (1 / 2), Fin (1 / 2)], sum_acc = Fin (3 / 2), count = 3\<rparr>"
  by (simp add: calculateNDVIForLocation_loop_step calculateNDVIForLocation_loop_exit
      calculateNDVIForLocation_body_def element_def toNumber_def init_def js_sub_def Let_def
      round64_eval)

section \<open>Numbers in range, and swapped bands\<close>

lemma pixel_finite:
  assumes "i < length redRaster" and "i < length nirRaster"
    and "redRaster ! i = Fin r" and "nirRaster ! i = Fin n"
  shows "pixelDenominator redRaster nirRaster i = js_add (Fin n) (Fin r)"
    and "pixelQuotient redRaster nirRaster i = js_div (js_sub (Fin n) (Fin r)) (js_add (Fin n) (Fin r))"
  using assms by (simp_all add: pixelDenominator_def pixelQuotient_def element_def toNumber_def)

lemma denominator_nonzero:
  assumes "round64 r = Fin r" and "round64 n = Fin n" and "0 \<le> r" and "0 \<le> n" and "n + r \<noteq> 0"
  shows "js_add (Fin n) (Fin r) \<noteq> Fin 0"
proof -
  define c where "c = max n r"
  have c: "round64 c = Fin c"
    unfolding c_def using assms(1,2) by (simp add: max_def)
  from assms(3-5) have pos: "0 < c" and le: "c \<le> n + r"
    unfolding c_def by (simp_all add: max_def)
  from round64_above [OF _ le c] pos
  have "round64 (n + r) = PInf \<or> (\<exists>d. round64 (n + r) = Fin d \<and> c \<le> d)"
    by simp
  with pos show ?thesis
    by auto
qed

lemma quotient_in_range:
  assumes "round64 r = Fin r" and "round64 n = Fin n" and "0 \<le> r" and "0 \<le> n" and "n + r \<noteq> 0"
  shows "inUnitRange (js_div (js_sub (Fin n) (Fin r)) (js_add (Fin n) (Fin r)))"
proof -
  define c where "c = max n r"
  have c: "round64 c = Fin c"
    unfolding c_def using assms(1,2) by (simp add: max_def)
  from assms(3-5) have pos: "0 < c" and le: "c \<le> n + r" and diff: "\<bar>n - r\<bar> \<le> c"
    and diff_sum: "\<bar>n - r\<bar> \<le> n + r"
    unfolding c_def by (simp_all add: max_def)
  from round64_bounded [OF diff c] obtain s where s: "round64 (n - r) = Fin s"
    by blast
  then have sub: "js_sub (Fin n) (Fin r) = Fin s"
    by (simp add: js_sub_def)
  from round64_above [OF _ le c] pos
  consider "round64 (n + r) = PInf" | d where "round64 (n + r) = Fin d" and "c \<le> d"
    by auto
  then show ?thesis
  proof cases
    case 1
    then show ?thesis
      by (simp add: sub inUnitRange_def)
  next
    case 2
    with pos have d: "0 < d" by linarith
    from round64_abs_le [OF diff_sum s 2(1)] have "\<bar>s\<bar> \<le> d" .
    with d have "\<bar>s / d\<bar> \<le> 1"
      by (simp add: abs_divide pos_divide_le_eq)
    from round64_bounded [OF this round64_1] obtain v where "round64 (s / d) = Fin v" and "\<bar>v\<bar> \<le> 1"
      by blast
    with d 2(1) show ?thesis
      by (simp add: sub inUnitRange_def abs_le_iff)
  qed
qed

lemma loop_nth:
  assumes "i < min (length redRaster) maxPixels"
  shows "ndvi (calculateNdvi_loop redRaster nirRaster 0 init) ! i = pushed redRaster nirRaster i"
proof -
  have "ndvi (calculateNdvi_loop redRaster nirRaster 0 init) =
          map (pushed redRaster nirRaster) [0..<min (length redRaster) maxPixels]"
    by (simp add: loop_ndvi init_def)
  with assms show ?thesis
    by (simp del: min_less_iff_conj)
qed

text \<open>
  With the bands swapped the denominator of a pixel is the same and its quotient is
  negated, so a run on rasters that give the loop the same bound pushes the negated
  values, ends with the negated sum, and counts the same pixels.
\<close>

lemma js_add_commute: "js_add x y = js_add y x"
  by (cases x; cases y) (simp_all add: add.commute)

lemma negate_js_add: "negate (js_add x y) = js_add (negate x) (negate y)"
  by (cases x; cases y) (simp_all add: round64_minus [symmetric])

lemma js_div_negate: "js_div (negate x) y = negate (js_div x y)"
  by (cases x; cases y) (auto simp add: round64_minus [symmetric])

lemma js_sub_swap: "js_sub x y = negate (js_sub y x)"
  by (simp add: js_sub_def negate_js_add negate_negate js_add_commute)

lemma denominator_swap: "pixelDenominator nirRaster redRaster i = pixelDenominator redRaster nirRaster i"
  by (simp add: pixelDenominator_def js_add_commute)

lemma quotient_swap: "pixelQuotient nirRaster redRaster i = negate (pixelQuotient redRaster nirRaster i)"
  unfolding pixelQuotient_def
  by (subst js_sub_swap) (simp add: js_div_negate js_add_commute)

lemma pushed_swap: "pushed nirRaster redRaster i = negate (pushed redRaster nirRaster i)"
  using denominator_swap [of nirRaster redRaster i] quotient_swap [of nirRaster redRaster i]
  by (simp add: pushed_def)

lemma counted_swap: "counted nirRaster redRaster = counted redRaster nirRaster"
proof
  fix i
  show "counted nirRaster redRaster i = counted redRaster nirRaster i"
    using denominator_swap [of nirRaster redRaster i] by (simp add: counted_def)
qed

lemma foldl_negate: "foldl js_add (negate a) (map negate xs) = negate (foldl js_add a xs)"
proof (induction xs arbitrary: a)
  case Nil
  show ?case by simp
next
  case (Cons x xs)
  show ?case
    using Cons.IH [of "js_add a x"] by (simp add: negate_js_add)
qed

lemma swap_negates:
  assumes "min (length nirRaster) maxPixels = min (length redRaster) maxPixels"
  shows "calculateNdvi_loop nirRaster redRaster 0 init =
     \<lparr>ndvi = map negate (ndvi (calculateNdvi_loop redRaster nirRaster 0 init)),
      sum_acc = negate (sum_acc (calculateNdvi_loop redRaster nirRaster 0 init)),
      count = count (calculateNdvi_loop redRaster nirRaster 0 init)\<rparr>"
proof -
  have q: "pixelQuotient nirRaster redRaster = negate \<circ> pixelQuotient redRaster nirRaster"
    by (rule ext) (simp add: quotient_swap [of nirRaster redRaster])
  have p: "pushed nirRaster redRaster = negate \<circ> pushed redRaster nirRaster"
    by (rule ext) (simp add: pushed_swap [of nirRaster redRaster])
  have c: "counted nirRaster redRaster = counted redRaster nirRaster"
    by (rule counted_swap)
  have f: "foldl js_add (Fin 0) (map (negate \<circ> g) xs) = negate (foldl js_add (Fin 0) (map g xs))"
    for g :: "nat \<Rightarrow> number" and xs
    using foldl_negate [of "Fin 0" "map g xs"] by simp
  show ?thesis
    unfolding loop_closed_form [of nirRaster redRaster] loop_closed_form [of redRaster nirRaster]
      assms c q p
    by (simp add: f del: min_less_iff_conj)
qed

lemma quotient_3_317:
  "pixelQuotient [Fin 3] [Fin 317] 0 = Fin (4419157134357299 / 4503599627370496)"
  by (simp add: pixelQuotient_def element_def toNumber_def js_sub_def round64_eval round64_157_160)

lemma loop_3_317:
  "calculateNdvi_loop [Fin 3] [Fin 317] 0 init =
     \<lparr>ndvi = [Fin (4419157134357299 / 4503599627370496)],
      sum_acc = Fin (4419157134357299 / 4503599627370496), count = 1\<rparr>"
proof -
  have "round64 (4419157134357299 / 4503599627370496) = Fin (4419157134357299 / 4503599627370496)"
    using round64_dyadic [of 4419157134357299 52] by simp
  then show ?thesis
    by (simp add: loop_eval round64_157_160)
qed

text \<open>
  A mean that shows the rounding: \<open>314 / 320\<close> is not a binary64 value, the quotient
  stored is the value just below it, and the mean prints as \<open>0.9812\<close> where the exact
  quotient \<open>0.98125\<close> would print as \<open>0.9813\<close>.
\<close>

lemma rounded_mean_3_317:
  "calculateNdvi numberToString
        (Some (\<lparr>raster = [Fin 3], getWidth = w, getHeight = h\<rparr>,
               \<lparr>raster = [Fin 317], getWidth = w', getHeight = h'\<rparr>)) =
       Some \<lparr>meanNdvi = ''0.9812'', sample = [Fin (4419157134357299 / 4503599627370496)],
             width = w, height = h\<rparr>"
proof -
  have r: "round64 (4419157134357299 / 4503599627370496) = Fin (4419157134357299 / 4503599627370496)"
    using round64_dyadic [of 4419157134357299 52] by simp
  have t: "toFixed numberToString 4 (Fin (4419157134357299 / 4503599627370496)) = ''0.9812''"
    by (simp add: toFixed_eval)
  show ?thesis
    by (simp add: calculateNdvi_def loop_3_317 r t)
qed

lemma loop_inf_5:
  "calculateNdvi_loop [PInf] [Fin 5] 0 init = \<lparr>ndvi = [NaN], sum_acc = NaN, count = 1\<rparr>"
  by (simp add: loop_eval)

lemma loop_2_1:
  "calculateNdvi_loop [Fin 1, Fin 2] [Fin 3] 0 init =
     \<lparr>ndvi = [Fin (1 / 2), NaN], sum_acc = NaN, count = 2\<rparr>"
  by (simp add: loop_eval)

lemma loop_1_2:
  "calculateNdvi_loop [Fin 3] [Fin 1, Fin 2] 0 init =
     \<lparr>ndvi = [Fin (- 1 / 2)], sum_acc = Fin (- 1 / 2), count = 1\<rparr>"
  by (simp add: loop_eval)

lemma calculateNdvi_closed_form:
  "calculateNdvi numberToString (Some (redImage, nirImage)) =
     Some \<lparr>meanNdvi = toFixed numberToString 4
              (js_div
                (foldl js_add (Fin 0)
                  (map (pixelQuotient (raster redImage) (raster nirImage))
                    (filter (counted (raster redImage) (raster nirImage))
                      [0..<min (length (raster redImage)) maxPixels])))
                (Fin (of_nat (length
                    (filter (counted (raster redImage) (raster nirImage))
                      [0..<min (length (raster redImage)) maxPixels]))))),
           sample = take 100 (map (pushed (raster redImage) (raster nirImage))
                      [0..<min (length (raster redImage)) maxPixels]),
           width = getWidth redImage, height = getHeight redImage\<rparr>"
  unfolding calculateNdvi_def loop_closed_form by (simp add: Let_def del: min_less_iff_conj)

section \<open>The claims\<close>

text \<open>
  C1. From the initial state the loop ends with, for every pair of rasters: in \<open>ndvi\<close>
  one value per processed pixel, which is 0 where the denominator \<open>nir + red\<close> is zero
  and the quotient elsewhere (\<open>pushed\<close>); in \<open>sum\<close> the sum of the quotients of the
  pixels with a non-zero denominator only (\<open>counted\<close>), added in scan order; in
  \<open>count\<close> the number of those pixels. The route handler's loop ends in the same state.
  The mean returned is that sum over that count, formatted to 4 places.
  For \<open>red = [0, 10]\<close>, \<open>nir = [0, 10]\<close> the per-pixel output is 0 followed by the NDVI
  of pixel 1, one pixel is counted, and the mean returned is the formatted NDVI of
  pixel 1. For \<open>red = [0, 100]\<close>, \<open>nir = [0, 300]\<close> the mean is \<open>0.5000\<close>, the NDVI of
  pixel 1, and not the average with the 0 recorded for pixel 0.
\<close>

theorem zero_denominator_exclusion:
  "calculateNdvi_loop redRaster nirRaster 0 init =
     \<lparr>ndvi = map (pushed redRaster nirRaster) [0..<min (length redRaster) maxPixels],
      sum_acc = foldl js_add (Fin 0)
         (map (pixelQuotient redRaster nirRaster)
           (filter (counted redRaster nirRaster) [0..<min (length redRaster) maxPixels])),
      count = length (filter (counted redRaster nirRaster) [0..<min (length redRaster) maxPixels])\<rparr>
   \<and> route_loop redRaster nirRaster 0 init = calculateNdvi_loop redRaster nirRaster 0 init
   \<and> calculateNdvi numberToString (Some (redImage, nirImage)) =
       Some \<lparr>meanNdvi = toFixed numberToString 4
                (js_div
                  (foldl js_add (Fin 0)
                    (map (pixelQuotient (raster redImage) (raster nirImage))
                      (filter (counted (raster redImage) (raster nirImage))
                        [0..<min (length (raster redImage)) maxPixels])))
                  (Fin (of_nat (length
                      (filter (counted (raster redImage) (raster nirImage))
                        [0..<min (length (raster redImage)) maxPixels]))))),
             sample = take 100 (map (pushed (raster redImage) (raster nirImage))
                        [0..<min (length (raster redImage)) maxPixels]),
             width = getWidth redImage, height = getHeight redImage\<rparr>
   \<and> calculateNdvi_loop [Fin 0, Fin 10] [Fin 0, Fin 10] 0 init =
       \<lparr>ndvi = [Fin 0, pixelQuotient [Fin 0, Fin 10] [Fin 0, Fin 10] 1],
        sum_acc = pixelQuotient [Fin 0, Fin 10] [Fin 0, Fin 10] 1,
        count = 1\<rparr>
   \<and> calculateNdvi numberToString
        (Some (\<lparr>raster = [Fin 0, Fin 10], getWidth = w, getHeight = h\<rparr>,
               \<lparr>raster = [Fin 0, Fin 10], getWidth = w', getHeight = h'\<rparr>)) =
       Some \<lparr>meanNdvi = toFixed numberToString 4 (pixelQuotient [Fin 0, Fin 10] [Fin 0, Fin 10] 1),
             sample = [Fin 0, pixelQuotient [Fin 0, Fin 10] [Fin 0, Fin 10] 1],
             width = w, height = h\<rparr>
   \<and> calculateNdvi numberToString
        (Some (\<lparr>raster = [Fin 0, Fin 100], getWidth = w, getHeight = h\<rparr>,
               \<lparr>raster = [Fin 0, Fin 300], getWidth = w', getHeight = h'\<rparr>)) =
       Some \<lparr>meanNdvi = ''0.5000'', sample = [Fin 0, Fin (1 / 2)], width = w, height = h\<rparr>"
proof -
  have q: "pixelQuotient [Fin 0, Fin 10] [Fin 0, Fin 10] 1 = Fin 0"
    by (simp add: pixelQuotient_def element_def toNumber_def js_sub_def round64_eval)
  have ex1: "calculateNdvi numberToString
        (Some (\<lparr>raster = [Fin 0, Fin 10], getWidth = w, getHeight = h\<rparr>,
               \<lparr>raster = [Fin 0, Fin 10], getWidth = w', getHeight = h'\<rparr>)) =
       Some \<lparr>meanNdvi = toFixed numberToString 4 (Fin 0), sample = [Fin 0, Fin 0],
             width = w, height = h\<rparr>"
    by (simp add: calculateNdvi_def loop_0_10 round64_eval)
  have ex2: "calculateNdvi numberToString
        (Some (\<lparr>raster = [Fin 0, Fin 100], getWidth = w, getHeight = h\<rparr>,
               \<lparr>raster = [Fin 0, Fin 300], getWidth = w', getHeight = h'\<rparr>)) =
       Some \<lparr>meanNdvi = ''0.5000'', sample = [Fin 0, Fin (1 / 2)], width = w, height = h\<rparr>"
    by (simp add: calculateNdvi_def loop_0_100_300 round64_eval toFixed_half)
  show ?thesis
    unfolding q
    by (intro conjI loop_closed_form route_loop_eq calculateNdvi_closed_form loop_0_10 ex1 ex2)
qed

text \<open>
  C2, at the failing input: a red band of 5 pixels and a NIR band of 3. The loops of
  the service function and of the route handler are bounded by the red band alone:
  they run 5 times, read \<^verbatim>\<open>undefined\<close> past the end of the NIR band at the indices 3
  and 4, push NaN for both and count them as valid, and the mean comes back as the
  string \<open>NaN\<close> with status 200. The sibling loop of \<^verbatim>\<open>calculateNDVIForLocation\<close>,
  bounded by the shorter band, processes 3 pixels on the same input.
\<close>

theorem truncation_five_three:
  "pixelsProcessed (calculateNdvi_loop [Fin 1, Fin 2, Fin 3, Fin 4, Fin 5] [Fin 3, Fin 6, Fin 9] 0 init) = 5
   \<and> pixelsProcessed (route_loop [Fin 1, Fin 2, Fin 3, Fin 4, Fin 5] [Fin 3, Fin 6, Fin 9] 0 init) = 5
   \<and> pixelsProcessed
        (calculateNDVIForLocation_loop [Fin 1, Fin 2, Fin 3, Fin 4, Fin 5] [Fin 3, Fin 6, Fin 9] 0 init) = 3
   \<and> element [Fin 3, Fin 6, Fin 9] 3 = None
   \<and> element [Fin 3, Fin 6, Fin 9] 4 = None
   \<and> calculateNdvi_loop [Fin 1, Fin 2, Fin 3, Fin 4, Fin 5] [Fin 3, Fin 6, Fin 9] 0 init =
       \<lparr>ndvi = [Fin (1 / 2), Fin (1 / 2), Fin (1 / 2), NaN, NaN], sum_acc = NaN, count = 5\<rparr>
   \<and> route_handler numberToString
        (Some (\<lparr>raster = [Fin 1, Fin 2, Fin 3, Fin 4, Fin 5], getWidth = w, getHeight = h\<rparr>,
               \<lparr>raster = [Fin 3, Fin 6, Fin 9], getWidth = w', getHeight = h'\<rparr>)) =
       \<lparr>status = 200,
        json = NdviJson \<lparr>meanNdvi = ''NaN'',
                          sample = [Fin (1 / 2), Fin (1 / 2), Fin (1 / 2), NaN, NaN],
                          width = w, height = h\<rparr>\<rparr>"
  by (simp add: pixelsProcessed_def route_handler_def route_loop_eq loop_5_3 location_loop_5_3
      toFixed_NaN element_def)

text \<open>
  C3, at the failing inputs: two all-zero rasters, and two empty rasters. No pixel is
  counted, the mean is \<open>0 / 0\<close>, and both the service function and the route handler
  return the string \<open>NaN\<close> as \<open>meanNdvi\<close>, the handler with status 200; no error is
  signalled.
\<close>

theorem all_zero_returns_NaN_text:
  "calculateNdvi numberToString
        (Some (\<lparr>raster = [Fin 0, Fin 0], getWidth = w, getHeight = h\<rparr>,
               \<lparr>raster = [Fin 0, Fin 0], getWidth = w', getHeight = h'\<rparr>)) =
       Some \<lparr>meanNdvi = ''NaN'', sample = [Fin 0, Fin 0], width = w, height = h\<rparr>
   \<and> route_handler numberToString
        (Some (\<lparr>raster = [Fin 0, Fin 0], getWidth = w, getHeight = h\<rparr>,
               \<lparr>raster = [Fin 0, Fin 0], getWidth = w', getHeight = h'\<rparr>)) =
       \<lparr>status = 200,
        json = NdviJson \<lparr>meanNdvi = ''NaN'', sample = [Fin 0, Fin 0], width = w, height = h\<rparr>\<rparr>
   \<and> route_handler numberToString
        (Some (\<lparr>raster = [], getWidth = w, getHeight = h\<rparr>,
               \<lparr>raster = [], getWidth = w', getHeight = h'\<rparr>)) =
       \<lparr>status = 200,
        json = NdviJson \<lparr>meanNdvi = ''NaN'', sample = [], width = w, height = h\<rparr>\<rparr>"
  by (simp add: calculateNdvi_def route_handler_def route_loop_eq loop_zero_zero loop_empty toFixed_NaN)

text \<open>
  C4. Whenever the rasters were loaded, the service function and the route handler
  return a result whose \<open>sample\<close> is the first 100 values of the per-pixel output
  \<open>ndvi\<close>. That output holds the value pushed for each of the pixels
  \<open>0, \<dots>, n - 1\<close>, where \<open>n = min (length red) maxPixels\<close> is the number of pixels
  processed, so the sample holds the values pushed for the first \<open>min 100 n\<close> pixels:
  its length is the smaller of 100 and the number of pixels processed and never
  exceeds 100.
\<close>

theorem sample_is_bounded_prefix:
  "(\<exists>r. calculateNdvi numberToString (Some (redImage, nirImage)) = Some r
        \<and> sample r = take 100 (ndvi (calculateNdvi_loop (raster redImage) (raster nirImage) 0 init))
        \<and> ndvi (calculateNdvi_loop (raster redImage) (raster nirImage) 0 init) =
            map (pushed (raster redImage) (raster nirImage))
              [0..<min (length (raster redImage)) maxPixels]
        \<and> pixelsProcessed (calculateNdvi_loop (raster redImage) (raster nirImage) 0 init) =
            min (length (raster redImage)) maxPixels
        \<and> sample r =
            map (pushed (raster redImage) (raster nirImage))
              [0..<min 100 (min (length (raster redImage)) maxPixels)]
        \<and> length (sample r) =
            min 100 (pixelsProcessed (calculateNdvi_loop (raster redImage) (raster nirImage) 0 init))
        \<and> length (sample r) = min 100 (min (length (raster redImage)) maxPixels)
        \<and> length (sample r) \<le> 100)
   \<and> (\<exists>r. route_handler numberToString (Some (redImage, nirImage)) = \<lparr>status = 200, json = NdviJson r\<rparr>
        \<and> sample r = take 100 (ndvi (route_loop (raster redImage) (raster nirImage) 0 init))
        \<and> ndvi (route_loop (raster redImage) (raster nirImage) 0 init) =
            map (pushed (raster redImage) (raster nirImage))
              [0..<min (length (raster redImage)) maxPixels]
        \<and> pixelsProcessed (route_loop (raster redImage) (raster nirImage) 0 init) =
            min (length (raster redImage)) maxPixels
        \<and> sample r =
            map (pushed (raster redImage) (raster nirImage))
              [0..<min 100 (min (length (raster redImage)) maxPixels)]
        \<and> length (sample r) =
            min 100 (pixelsProcessed (route_loop (raster redImage) (raster nirImage) 0 init))
        \<and> length (sample r) = min 100 (min (length (raster redImage)) maxPixels)
        \<and> length (sample r) \<le> 100)"
proof -
  let ?n = "min (length (raster redImage)) maxPixels"
  let ?st = "calculateNdvi_loop (raster redImage) (raster nirImage) 0 init"
  have out: "ndvi ?st = map (pushed (raster redImage) (raster nirImage)) [0..<?n]"
    by (simp add: loop_ndvi init_def)
  have processed: "pixelsProcessed ?st = ?n"
    by (rule loop_pixelsProcessed)
  have prefix: "take 100 (ndvi ?st) = map (pushed (raster redImage) (raster nirImage)) [0..<min 100 ?n]"
    unfolding out take_map take_upt_min ..
  have len: "length (take 100 (ndvi ?st)) = min 100 ?n"
    unfolding prefix by simp
  have service: "calculateNdvi numberToString (Some (redImage, nirImage)) =
      Some \<lparr>meanNdvi = toFixed numberToString 4 (js_div (sum_acc ?st) (Fin (of_nat (count ?st)))),
            sample = take 100 (ndvi ?st), width = getWidth redImage, height = getHeight redImage\<rparr>"
    by (simp add: calculateNdvi_def Let_def)
  have route: "route_handler numberToString (Some (redImage, nirImage)) =
      \<lparr>status = 200,
       json = NdviJson
         \<lparr>meanNdvi = toFixed numberToString 4 (js_div (sum_acc ?st) (Fin (of_nat (count ?st)))),
          sample = take 100 (ndvi ?st), width = getWidth redImage, height = getHeight redImage\<rparr>\<rparr>"
    by (simp add: route_handler_def route_loop_eq Let_def)
  have bound: "min 100 ?n \<le> 100"
    by (rule min.cobounded1)
  show ?thesis
    unfolding route_loop_eq service route processed
    using out prefix len bound by simp
qed

text \<open>
  C5, as amended. A processed pixel whose red and NIR values are finite, non-negative
  binary64 numbers with a non-zero sum has a non-zero computed denominator, the value
  stored for it by either loop is the computed quotient \<open>(nir - red) / (nir + red)\<close>,
  each operation rounded to binary64, and that value lies between \<open>-1\<close> and \<open>1\<close>.
\<close>

theorem ndvi_range:
  assumes "i < min (length redRaster) maxPixels" and "i < length nirRaster"
    and "redRaster ! i = Fin r" and "nirRaster ! i = Fin n"
    and "round64 r = Fin r" and "round64 n = Fin n"
    and "0 \<le> r" and "0 \<le> n" and "n + r \<noteq> 0"
  shows "pixelDenominator redRaster nirRaster i \<noteq> Fin 0
         \<and> ndvi (calculateNdvi_loop redRaster nirRaster 0 init) ! i = pixelQuotient redRaster nirRaster i
         \<and> ndvi (route_loop redRaster nirRaster 0 init) ! i = pixelQuotient redRaster nirRaster i
         \<and> inUnitRange (pixelQuotient redRaster nirRaster i)"
proof -
  from assms(1) have "i < length redRaster" by simp
  note at = pixel_finite [OF this assms(2) assms(3) assms(4)]
  have nonzero: "pixelDenominator redRaster nirRaster i \<noteq> Fin 0"
    unfolding at using assms(5-9) by (rule denominator_nonzero)
  have range: "inUnitRange (pixelQuotient redRaster nirRaster i)"
    unfolding at using assms(5-9) by (rule quotient_in_range)
  from nonzero have "pushed redRaster nirRaster i = pixelQuotient redRaster nirRaster i"
    by (simp add: pushed_def)
  with nonzero range loop_nth [OF assms(1)] show ?thesis
    by (simp add: route_loop_eq)
qed

theorem ndvi_range_witness:
  "pixelDenominator [Fin 3] [Fin 317] 0 \<noteq> Fin 0
   \<and> ndvi (calculateNdvi_loop [Fin 3] [Fin 317] 0 init) ! 0 = pixelQuotient [Fin 3] [Fin 317] 0
   \<and> ndvi (route_loop [Fin 3] [Fin 317] 0 init) ! 0 = pixelQuotient [Fin 3] [Fin 317] 0
   \<and> inUnitRange (pixelQuotient [Fin 3] [Fin 317] 0)
   \<and> pixelQuotient [Fin 3] [Fin 317] 0 = Fin (4419157134357299 / 4503599627370496)"
  using ndvi_range [of 0 "[Fin 3]" "[Fin 317]" 3 317] quotient_3_317
  by (simp add: maxPixels_def round64_eval)

text \<open>
  C5 as stated fails for a non-negative band value that is not finite: with
  \<open>red = +\<infinity>\<close> and \<open>nir = 5\<close> the denominator is \<open>+\<infinity>\<close>, which is not zero, and the value
  stored is \<open>-\<infinity> / +\<infinity>\<close>, NaN, which is not in the interval.
\<close>

theorem ndvi_range_infinite_band:
  "pixelDenominator [PInf] [Fin 5] 0 = PInf
   \<and> ndvi (calculateNdvi_loop [PInf] [Fin 5] 0 init) = [NaN]
   \<and> ndvi (route_loop [PInf] [Fin 5] 0 init) = [NaN]
   \<and> \<not> inUnitRange (ndvi (calculateNdvi_loop [PInf] [Fin 5] 0 init) ! 0)"
  by (simp add: route_loop_eq loop_inf_5 pixelDenominator_def element_def toNumber_def inUnitRange_def)

text \<open>
  C6. When both bands hold at least 1,000,000 values, the loop of the service function
  and the loop of the route handler each process exactly 1,000,000 pixels, the value of
  \<open>maxPixels\<close>.
\<close>

theorem cap_enforcement:
  "1000000 \<le> length redRaster \<Longrightarrow> 1000000 \<le> length nirRaster \<Longrightarrow>
   pixelsProcessed (calculateNdvi_loop redRaster nirRaster 0 init) = 1000000
   \<and> pixelsProcessed (route_loop redRaster nirRaster 0 init) = 1000000
   \<and> maxPixels = 1000000"
  by (simp add: loop_pixelsProcessed route_pixelsProcessed maxPixels_def)

theorem cap_enforcement_witness:
  "pixelsProcessed (calculateNdvi_loop (replicate 2000000 (Fin 100)) (replicate 2000000 (Fin 300)) 0 init)
     = 1000000
   \<and> pixelsProcessed (route_loop (replicate 2000000 (Fin 100)) (replicate 2000000 (Fin 300)) 0 init)
     = 1000000"
  using cap_enforcement [of "replicate 2000000 (Fin 100)" "replicate 2000000 (Fin 300)"]
  by simp

text \<open>
  C7. For the single-pixel rasters \<open>red = [100]\<close>, \<open>nir = [300]\<close> the per-pixel NDVI is
  \<open>(300 - 100) / (300 + 100) = 1/2\<close> and the mean is returned as the string \<open>0.5000\<close>,
  by the service function and by the route handler alike.
\<close>

theorem known_value_round_trip:
  "calculateNdvi_loop [Fin 100] [Fin 300] 0 init =
     \<lparr>ndvi = [Fin ((300 - 100) / (300 + 100))], sum_acc = Fin (1 / 2), count = 1\<rparr>
   \<and> calculateNdvi numberToString
        (Some (\<lparr>raster = [Fin 100], getWidth = w, getHeight = h\<rparr>,
               \<lparr>raster = [Fin 300], getWidth = w', getHeight = h'\<rparr>)) =
       Some \<lparr>meanNdvi = ''0.5000'', sample = [Fin (1 / 2)], width = w, height = h\<rparr>
   \<and> route_handler numberToString
        (Some (\<lparr>raster = [Fin 100], getWidth = w, getHeight = h\<rparr>,
               \<lparr>raster = [Fin 300], getWidth = w', getHeight = h'\<rparr>)) =
       \<lparr>status = 200,
        json = NdviJson \<lparr>meanNdvi = ''0.5000'', sample = [Fin (1 / 2)], width = w, height = h\<rparr>\<rparr>"
  by (simp add: calculateNdvi_def route_handler_def route_loop_eq loop_100_300 round64_eval
      toFixed_half)

text \<open>
  C8. For every outcome of loading the two rasters, the response of the route handler
  is the response built from the result of the service function: status 200 with that
  very result (the same \<open>meanNdvi\<close> string, the same \<open>sample\<close>, the same dimensions)
  when it returns one, and the 500 error when it throws. The two loops end in the same
  state from every index and state.
\<close>

theorem reducers_agree:
  "route_handler numberToString loaded =
     (case calculateNdvi numberToString loaded of
        None \<Rightarrow> \<lparr>status = 500, json = ErrorJson ''NDVI computation failed''\<rparr>
      | Some r \<Rightarrow> \<lparr>status = 200, json = NdviJson r\<rparr>)
   \<and> route_loop redRaster nirRaster i st = calculateNdvi_loop redRaster nirRaster i st"
proof (cases loaded)
  case None
  then show ?thesis
    by (simp add: route_handler_def calculateNdvi_def route_loop_eq)
next
  case (Some images)
  then show ?thesis
    by (cases images) (simp add: route_handler_def calculateNdvi_def route_loop_eq Let_def)
qed

text \<open>
  C10, at the failing input \<open>red = [1, 2]\<close>, \<open>nir = [3]\<close>. The run processes two pixels,
  the second with an absent NIR value: it pushes \<open>1/2\<close> and NaN, counts two pixels and
  sums to NaN. With the bands swapped the loop is bounded by the one-pixel band: it
  pushes \<open>-1/2\<close> alone, counts one pixel and sums to \<open>-1/2\<close>. The count differs and the
  sum is not the negation.
\<close>

theorem swap_unequal_lengths:
  "calculateNdvi_loop [Fin 1, Fin 2] [Fin 3] 0 init =
     \<lparr>ndvi = [Fin (1 / 2), NaN], sum_acc = NaN, count = 2\<rparr>
   \<and> calculateNdvi_loop [Fin 3] [Fin 1, Fin 2] 0 init =
     \<lparr>ndvi = [Fin (- 1 / 2)], sum_acc = Fin (- 1 / 2), count = 1\<rparr>
   \<and> route_loop [Fin 1, Fin 2] [Fin 3] 0 init =
     \<lparr>ndvi = [Fin (1 / 2), NaN], sum_acc = NaN, count = 2\<rparr>
   \<and> route_loop [Fin 3] [Fin 1, Fin 2] 0 init =
     \<lparr>ndvi = [Fin (- 1 / 2)], sum_acc = Fin (- 1 / 2), count = 1\<rparr>"
  by (simp only: route_loop_eq loop_2_1 loop_1_2 simp_thms)

end
